theory Spec2Isabelle
  imports Complex_Main
begin

section \<open>The pump controller of main.py\<close>

text \<open>
  A shallow embedding of \<^verbatim>\<open>src/main.py\<close>: the \<^verbatim>\<open>Pump\<close> and \<^verbatim>\<open>AutoPump\<close> classes, the
  handlers \<^verbatim>\<open>handleSwitch\<close>, \<^verbatim>\<open>handleKnob\<close>, \<^verbatim>\<open>handleButton\<close>, the periodic
  \<^verbatim>\<open>_run\<close>, and the telemetry functions \<^verbatim>\<open>connectToWifi\<close>, \<^verbatim>\<open>sendDatapoint\<close> and
  \<^verbatim>\<open>_networkThread\<close>.

  Conventions.
  \<^item> Every handler is a function from the state before to the state after. Each handler
    runs to its end before the next one starts: an interrupt in the middle of another
    handler is not modelled.
  \<^item> \<^verbatim>\<open>time.time()\<close> gives whole seconds on the target; its reading is an argument
    \<open>now\<close> of the handler that makes it. \<^verbatim>\<open>time.sleep\<close> changes no field.
  \<^item> The readings of the ADC during one \<^verbatim>\<open>getLoad\<close> window are arguments: the first
    reading \<open>r0\<close> and the list \<open>rs\<close> of the readings of the loop.
  \<^item> A Python exception is the value \<open>Inl e\<close>.
  \<^item> Python floats are taken as exact rationals: \<^verbatim>\<open>float(a) / b\<close> is the quotient in
    \<^typ>\<open>rat\<close>, and \<^verbatim>\<open>int(a / b)\<close> is that quotient truncated toward zero. The rounding
    of the target's floating-point unit is not modelled.
\<close>

subsection \<open>Constants\<close>

definition SWITCH_AUTO :: int where [simp]: "SWITCH_AUTO = 1"
definition DATA_RETRY_COUNT :: nat where [simp]: "DATA_RETRY_COUNT = 3"
definition DATA_DELAY_SEC :: int where [simp]: "DATA_DELAY_SEC = 15"
definition CONNECTION_DELAY_SEC :: nat where [simp]: "CONNECTION_DELAY_SEC = 10"
definition AUTO_READ_DELAY :: int where [simp]: "AUTO_READ_DELAY = 30"
definition DEFAULT_AUTO_PUMP_THRESHOLD :: int where [simp]: "DEFAULT_AUTO_PUMP_THRESHOLD = 60"
definition DEFAULT_AUTO_WATER_LOAD :: int where [simp]: "DEFAULT_AUTO_WATER_LOAD = 2000"

text \<open>The class constants of \<^verbatim>\<open>AutoPump\<close>. The four modes are an enumeration; the
  submode and the selected menu entry are compared with the same integers
  (\<^verbatim>\<open>AUTO_CALIB_THRESHOLD\<close> is both a submode and a menu index), so they stay integers.\<close>

datatype mode = MODE_AUTO_STANDBY | MODE_AUTO_PUMPING | MODE_TIMER_STANDBY | MODE_TIMER_PUMPING

fun mode_code :: "mode \<Rightarrow> int" where
  "mode_code MODE_AUTO_STANDBY = 0"
| "mode_code MODE_AUTO_PUMPING = 1"
| "mode_code MODE_TIMER_STANDBY = 2"
| "mode_code MODE_TIMER_PUMPING = 3"

definition AUTO_MODE_MENU :: int where [simp]: "AUTO_MODE_MENU = 0"
definition AUTO_MENU_RUN :: int where [simp]: "AUTO_MENU_RUN = 0"
definition AUTO_CALIB_THRESHOLD :: int where [simp]: "AUTO_CALIB_THRESHOLD = 1"
definition AUTO_CALIB_WATER :: int where [simp]: "AUTO_CALIB_WATER = 2"

definition AutoMenu :: "string list" where
  "AutoMenu = [''AUTO'', ''RATO'', ''CALR'']"

definition AutoAnimation :: "int list" where
  "AutoAnimation = [1, 2, 64, 16, 8, 4, 64, 32]"

subsection \<open>Exceptions, list indexing, truncation\<close>

datatype error = ZeroDivisionError | IndexError | ValueError

text \<open>\<^verbatim>\<open>xs[i]\<close>: an index below zero counts from the end of the list, and an index
  outside the list raises.\<close>

definition getitem :: "'a list \<Rightarrow> int \<Rightarrow> error + 'a" where
  "getitem xs i =
     (if 0 \<le> i \<and> i < int (length xs) then Inr (xs ! nat i)
      else if i < 0 \<and> - int (length xs) \<le> i then Inr (xs ! nat (int (length xs) + i))
      else Inl IndexError)"

text \<open>\<^verbatim>\<open>int(a / 60)\<close> for an integer \<open>a\<close>: the quotient truncated toward zero.\<close>

definition int_div60 :: "int \<Rightarrow> int" where
  "int_div60 a = (if a < 0 then - ((- a) div 60) else a div 60)"

subsection \<open>The pump\<close>

record pump =
  PumpPower :: bool
  StartTime :: int

definition Pump_on :: "int \<Rightarrow> pump \<Rightarrow> pump" where
  "Pump_on now p = p\<lparr>PumpPower := True, StartTime := now\<rparr>"

definition Pump_off :: "pump \<Rightarrow> pump" where
  "Pump_off p = p\<lparr>PumpPower := False, StartTime := 0\<rparr>"

definition isOn :: "pump \<Rightarrow> bool" where
  "isOn p = PumpPower p"

definition getElapsedTime :: "int \<Rightarrow> pump \<Rightarrow> int" where
  "getElapsedTime now p = (if isOn p then now - StartTime p else 0)"

text \<open>\<^verbatim>\<open>Pump.getLoad\<close>: the swing of the ADC over the window. \<open>low\<close> and \<open>high\<close> start at
  the first reading and follow every reading of the loop.\<close>

fun swing :: "int list \<Rightarrow> int \<Rightarrow> int \<Rightarrow> int" where
  "swing [] low high = high - low"
| "swing (r # rs) low high = swing rs (min low r) (max high r)"

definition getLoad :: "int \<Rightarrow> int list \<Rightarrow> int" where
  "getLoad r0 rs = swing rs r0 r0"

subsection \<open>The controller state\<close>

text \<open>What the display shows: a label (\<^verbatim>\<open>show\<close>), a number (\<^verbatim>\<open>number\<close>), or the raw
  segments of the pumping animation (\<^verbatim>\<open>write\<close>): the glyph of the first cell and the
  whole minutes whose decimal digits fill the other three cells.\<close>

datatype shown = ShowText string | ShowNumber int | ShowSegments int int

text \<open>The fields of \<^verbatim>\<open>AutoPump\<close>, with its collaborators: \<open>Config\<close> is the dictionary in
  memory and \<open>ConfigFile\<close> the dictionary last written to \<^verbatim>\<open>/config.py\<close> (only its
  integer entries are modelled), \<open>Knob\<close> is the counter of the encoder, \<open>Shown\<close> and
  \<open>Brightness\<close> are the display.\<close>

record AutoPump =
  Config :: "string \<rightharpoonup> int"
  ConfigFile :: "string \<rightharpoonup> int"
  Pump :: pump
  Knob :: int
  Shown :: shown
  Brightness :: int
  Mode :: mode
  LastDataUpdate :: int
  PumpStartTime :: int
  RemainingPumpMinutes :: int
  SecondsToPump :: int
  AutoThreshold :: int
  AutoWaterLoad :: int
  AutoMode :: int
  AutoMenuSelected :: int
  AutoAnimationIdx :: int

text \<open>Modelled from the spec: the encoder module (\<^verbatim>\<open>encoder.EncoderKnob\<close>) is not under
  src/. Section 6 of the spec describes it as a signed counter "that can be forcibly
  reset to an arbitrary value": \<^verbatim>\<open>value()\<close> reads the counter, \<^verbatim>\<open>value(v)\<close> sets it to
  \<open>v\<close> and returns \<open>v\<close>.\<close>

definition EncoderKnob_value :: "AutoPump \<Rightarrow> int" where
  "EncoderKnob_value s = Knob s"

definition EncoderKnob_set :: "int \<Rightarrow> AutoPump \<Rightarrow> int \<times> AutoPump" where
  "EncoderKnob_set v s = (v, s\<lparr>Knob := v\<rparr>)"

definition Display_show :: "string \<Rightarrow> AutoPump \<Rightarrow> AutoPump" where
  "Display_show label s = s\<lparr>Shown := ShowText label\<rparr>"

definition Display_number :: "int \<Rightarrow> AutoPump \<Rightarrow> AutoPump" where
  "Display_number n s = s\<lparr>Shown := ShowNumber n\<rparr>"

definition Display_brightness :: "int \<Rightarrow> AutoPump \<Rightarrow> AutoPump" where
  "Display_brightness b s = s\<lparr>Brightness := b\<rparr>"

text \<open>\<^verbatim>\<open>saveConfig\<close> writes the whole dictionary over the file.\<close>

definition saveConfig :: "AutoPump \<Rightarrow> AutoPump" where
  "saveConfig s = s\<lparr>ConfigFile := Config s\<rparr>"

subsection \<open>handleSwitch\<close>

text \<open>\<open>pos\<close> is the value of the switch pin that the handler compares with
  \<^verbatim>\<open>SWITCH_AUTO\<close>.\<close>

definition handleSwitch :: "int \<Rightarrow> AutoPump \<Rightarrow> AutoPump" where
  "handleSwitch pos s =
     (let s1 = s\<lparr>Pump := Pump_off (Pump s)\<rparr> in
      if pos \<noteq> SWITCH_AUTO then
        (let (v, s2) = EncoderKnob_set 0 s1;
             s3 = Display_number v (s2\<lparr>RemainingPumpMinutes := v\<rparr>)
         in s3\<lparr>Mode := MODE_TIMER_STANDBY\<rparr>)
      else (Display_show ''AUTO'' s1)\<lparr>Mode := MODE_AUTO_STANDBY\<rparr>)"

subsection \<open>handleKnob\<close>

definition handleKnob :: "int \<Rightarrow> AutoPump \<Rightarrow> error + AutoPump" where
  "handleKnob change s =
     (case Mode s of
        MODE_TIMER_STANDBY \<Rightarrow>
          (let (v, s1) = (if EncoderKnob_value s < 0 then EncoderKnob_set 0 s
                          else (EncoderKnob_value s, s))
           in Inr (Display_number v (s1\<lparr>RemainingPumpMinutes := v\<rparr>)))
      | MODE_AUTO_STANDBY \<Rightarrow>
          if AutoMode s = AUTO_MODE_MENU then
            (let s1 = s\<lparr>AutoMenuSelected := EncoderKnob_value s mod int (length AutoMenu)\<rparr> in
             case getitem AutoMenu (AutoMenuSelected s1) of
               Inl e \<Rightarrow> Inl e
             | Inr label \<Rightarrow> Inr (Display_show label s1))
          else if AutoMode s = AUTO_CALIB_THRESHOLD then
            (let (v1, s1) = (if EncoderKnob_value s < 0 then EncoderKnob_set 0 s
                             else (EncoderKnob_value s, s));
                 (v2, s2) = (if v1 > 100 then EncoderKnob_set 100 s1 else (v1, s1))
             in Inr (Display_number v2 (s2\<lparr>AutoThreshold := v2\<rparr>)))
          else Inr s
      | MODE_AUTO_PUMPING \<Rightarrow> Inr s
      | MODE_TIMER_PUMPING \<Rightarrow> Inr s)"

text \<open>A turn of the knob by \<open>d\<close> steps: the encoder moves its counter and then calls
  the handler.\<close>

definition knob_event :: "int \<Rightarrow> AutoPump \<Rightarrow> error + AutoPump" where
  "knob_event d s = handleKnob d (s\<lparr>Knob := Knob s + d\<rparr>)"

subsection \<open>handleButton\<close>

text \<open>\<open>t_on\<close> is the clock read by \<^verbatim>\<open>Pump.on\<close>, \<open>now\<close> the clock read by the handler
  for \<^verbatim>\<open>PumpStartTime\<close>.\<close>

definition handleButton :: "int \<Rightarrow> int \<Rightarrow> AutoPump \<Rightarrow> error + AutoPump" where
  "handleButton t_on now s =
     (case Mode s of
        MODE_TIMER_STANDBY \<Rightarrow>
          if RemainingPumpMinutes s > 0 then
            (let s1 = s\<lparr>Mode := MODE_TIMER_PUMPING\<rparr>;
                 s2 = s1\<lparr>SecondsToPump := RemainingPumpMinutes s1 * 60\<rparr>;
                 s3 = s2\<lparr>Pump := Pump_on t_on (Pump s2)\<rparr>;
                 s4 = s3\<lparr>PumpStartTime := now\<rparr>
             in Inr (Display_brightness 7 s4))
          else Inr s
      | MODE_TIMER_PUMPING \<Rightarrow>
          (let s1 = s\<lparr>Mode := MODE_TIMER_STANDBY\<rparr>;
               s2 = s1\<lparr>Pump := Pump_off (Pump s1)\<rparr>;
               (v, s3) = EncoderKnob_set 0 s2;
               s4 = Display_number v (s3\<lparr>RemainingPumpMinutes := v\<rparr>)
           in Inr (Display_brightness 7 s4))
      | MODE_AUTO_STANDBY \<Rightarrow>
          if AutoMode s = AUTO_MODE_MENU then
            if AutoMenuSelected s = AUTO_MENU_RUN then
              (let s1 = s\<lparr>Mode := MODE_AUTO_PUMPING\<rparr>;
                   s2 = s1\<lparr>Pump := Pump_on t_on (Pump s1)\<rparr>;
                   s3 = s2\<lparr>PumpStartTime := now\<rparr>
               in Inr (Display_show '' ON '' s3))
            else if AutoMenuSelected s = AUTO_CALIB_THRESHOLD then
              (let (v, s1) = EncoderKnob_set (AutoThreshold s) s;
                   s2 = Display_number v s1
               in Inr (s2\<lparr>AutoMode := AUTO_CALIB_THRESHOLD\<rparr>))
            else if AutoMenuSelected s = AUTO_CALIB_WATER then
              Inr (s\<lparr>AutoMode := AUTO_CALIB_WATER\<rparr>)
            else Inr s
          else if AutoMode s = AUTO_CALIB_THRESHOLD then
            (let s1 = s\<lparr>Config := (Config s)(''auto_threshold'' \<mapsto> AutoThreshold s)\<rparr>;
                 s2 = saveConfig s1;
                 s3 = s2\<lparr>AutoMode := AUTO_MODE_MENU\<rparr>;
                 (v, s4) = EncoderKnob_set (AutoMenuSelected s3) s3
             in case getitem AutoMenu v of
                  Inl e \<Rightarrow> Inl e
                | Inr label \<Rightarrow> Inr (Display_show label s4))
          else if AutoMode s = AUTO_CALIB_WATER then
            (let s1 = s\<lparr>Config := (Config s)(''auto_water_load'' \<mapsto> AutoWaterLoad s)\<rparr>;
                 s2 = saveConfig s1;
                 s3 = s2\<lparr>AutoMode := AUTO_MODE_MENU\<rparr>
             in case getitem AutoMenu (AutoMenuSelected s3) of
                  Inl e \<Rightarrow> Inl e
                | Inr label \<Rightarrow> Inr (Display_show label s3))
          else Inr s
      | MODE_AUTO_PUMPING \<Rightarrow>
          (let s1 = s\<lparr>Pump := Pump_off (Pump s)\<rparr> in
           case getitem AutoMenu 0 of
             Inl e \<Rightarrow> Inl e
           | Inr label \<Rightarrow> Inr (Display_show label s1)))"

subsection \<open>checkLoadToStop\<close>

text \<open>\<^verbatim>\<open>percent = float(load) / self.AutoWaterLoad * 100\<close>, then
  \<^verbatim>\<open>percent < self.AutoThreshold\<close>. The division raises when the baseline is zero.\<close>

definition checkLoadToStop :: "int \<Rightarrow> AutoPump \<Rightarrow> error + bool" where
  "checkLoadToStop load s =
     (if AutoWaterLoad s = 0 then Inl ZeroDivisionError
      else (let percent = (of_int load :: rat) / of_int (AutoWaterLoad s) * 100
            in if percent < of_int (AutoThreshold s) then Inr True else Inr False))"

subsection \<open>The periodic tick\<close>

text \<open>The display update of the pumping animation (the end of the
  \<^verbatim>\<open>MODE_AUTO_PUMPING\<close> branch of \<^verbatim>\<open>_run\<close>).\<close>

definition write_animation :: "int \<Rightarrow> AutoPump \<Rightarrow> error + AutoPump" where
  "write_animation now s =
     (let s1 = Display_brightness 7 s;
          elapsed_seconds = now - PumpStartTime s1;
          num = int_div60 elapsed_seconds
      in case getitem AutoAnimation (AutoAnimationIdx s1) of
           Inl e \<Rightarrow> Inl e
         | Inr glyph \<Rightarrow>
             (let s2 = s1\<lparr>AutoAnimationIdx := AutoAnimationIdx s1 + 1\<rparr>;
                  s3 = (if AutoAnimationIdx s2 \<ge> int (length AutoAnimation)
                        then s2\<lparr>AutoAnimationIdx := AutoAnimationIdx s2 - int (length AutoAnimation)\<rparr>
                        else s2)
              in Inr (s3\<lparr>Shown := ShowSegments glyph num\<rparr>)))"

text \<open>The completion check of the \<^verbatim>\<open>MODE_AUTO_PUMPING\<close> branch: the two nested
  conditions on the clock, then the load sample.\<close>

definition auto_check :: "int \<Rightarrow> int \<Rightarrow> int list \<Rightarrow> AutoPump \<Rightarrow> error + AutoPump" where
  "auto_check now r0 rs s =
     (if now - PumpStartTime s > AUTO_READ_DELAY then
        if now mod 10 \<noteq> 0 then
          (case checkLoadToStop (getLoad r0 rs) s of
             Inl e \<Rightarrow> Inl e
           | Inr stop \<Rightarrow>
               if stop then
                 (let s1 = s\<lparr>Pump := Pump_off (Pump s)\<rparr>;
                      s2 = s1\<lparr>Mode := MODE_AUTO_STANDBY\<rparr>
                  in case getitem AutoMenu 0 of
                       Inl e \<Rightarrow> Inl e
                     | Inr label \<Rightarrow> Inr (Display_show label s2))
               else Inr s)
        else Inr s
      else Inr s)"

text \<open>\<^verbatim>\<open>AutoPump._run\<close>.\<close>

definition run_tick :: "int \<Rightarrow> int \<Rightarrow> int list \<Rightarrow> AutoPump \<Rightarrow> error + AutoPump" where
  "run_tick now r0 rs s =
     (case Mode s of
        MODE_TIMER_PUMPING \<Rightarrow>
          (let elapsed_seconds = now - PumpStartTime s;
               s1 = s\<lparr>RemainingPumpMinutes := int_div60 (SecondsToPump s + 59 - elapsed_seconds)\<rparr>;
               (u, s2) = EncoderKnob_set (RemainingPumpMinutes s1) s1;
               s3 = Display_number (RemainingPumpMinutes s2) s2
           in if elapsed_seconds \<ge> SecondsToPump s3 then
                (let s4 = s3\<lparr>Pump := Pump_off (Pump s3)\<rparr>;
                     s5 = s4\<lparr>Mode := MODE_TIMER_STANDBY\<rparr>;
                     s6 = Display_brightness 7 s5;
                     (v, s7) = EncoderKnob_set 0 s6
                 in Inr (Display_number v (s7\<lparr>RemainingPumpMinutes := v\<rparr>)))
              else Inr s3)
      | MODE_TIMER_STANDBY \<Rightarrow>
          if now mod 2 \<noteq> 0
          then Inr (Display_number (RemainingPumpMinutes s) (Display_brightness 7 s))
          else Inr (Display_brightness 2 s)
      | MODE_AUTO_STANDBY \<Rightarrow>
          if AutoMode s = AUTO_MODE_MENU then
            (case getitem AutoMenu (AutoMenuSelected s) of
               Inl e \<Rightarrow> Inl e
             | Inr label \<Rightarrow> Inr (Display_show label s))
          else if AutoMode s = AUTO_CALIB_THRESHOLD then
            Inr (Display_number (AutoThreshold s) s)
          else if AutoMode s = AUTO_CALIB_WATER then
            (let s1 = (if now mod 5 \<noteq> 0 then s\<lparr>AutoWaterLoad := getLoad r0 rs\<rparr> else s)
             in Inr (Display_number (AutoWaterLoad s1) s1))
          else Inr s
      | MODE_AUTO_PUMPING \<Rightarrow>
          (case auto_check now r0 rs s of
             Inl e \<Rightarrow> Inl e
           | Inr s1 \<Rightarrow> if now mod 2 \<noteq> 0 then write_animation now s1 else Inr s1))"

subsection \<open>Boot\<close>

text \<open>\<^verbatim>\<open>main\<close>: the configuration is loaded, \<^verbatim>\<open>Pump()\<close> switches the relay off, and
  \<^verbatim>\<open>AutoPump.__init__\<close> sets the fields and calls \<^verbatim>\<open>handleSwitch\<close>. The counter of the
  encoder, the brightness of the display and the position of the switch at that moment
  are arguments.\<close>

definition boot :: "(string \<rightharpoonup> int) \<Rightarrow> int \<Rightarrow> int \<Rightarrow> int \<Rightarrow> AutoPump" where
  "boot config knob0 bright0 pos =
     handleSwitch pos
       \<lparr> Config = config, ConfigFile = config,
         Pump = Pump_off \<lparr>PumpPower = False, StartTime = 0\<rparr>,
         Knob = knob0, Shown = ShowText ''DONE'', Brightness = bright0,
         Mode = MODE_AUTO_STANDBY, LastDataUpdate = 0, PumpStartTime = 0,
         RemainingPumpMinutes = 0, SecondsToPump = 0,
         AutoThreshold = (case config ''auto_threshold'' of
                            None \<Rightarrow> DEFAULT_AUTO_PUMP_THRESHOLD | Some v \<Rightarrow> v),
         AutoWaterLoad = (case config ''auto_water_load'' of
                            None \<Rightarrow> DEFAULT_AUTO_WATER_LOAD | Some v \<Rightarrow> v),
         AutoMode = AUTO_MODE_MENU, AutoMenuSelected = 0, AutoAnimationIdx = 0 \<rparr>"

subsection \<open>Events and runs\<close>

datatype event =
    Switch int
  | KnobTurn int
  | Button int int
  | Tick int int "int list"

fun step :: "event \<Rightarrow> AutoPump \<Rightarrow> error + AutoPump" where
  "step (Switch pos) s = Inr (handleSwitch pos s)"
| "step (KnobTurn d) s = knob_event d s"
| "step (Button t_on now) s = handleButton t_on now s"
| "step (Tick now r0 rs) s = run_tick now r0 rs s"

fun run_events :: "event list \<Rightarrow> AutoPump \<Rightarrow> error + AutoPump" where
  "run_events [] s = Inr s"
| "run_events (e # es) s = (case step e s of Inl x \<Rightarrow> Inl x | Inr s' \<Rightarrow> run_events es s')"

text \<open>The states the controller can be in: the state after boot, and the state after
  any handler that returns. (An exception in \<^verbatim>\<open>_run\<close> resets the device, which boots
  again.)\<close>

inductive reachable :: "AutoPump \<Rightarrow> bool" where
  reachable_boot: "reachable (boot config knob0 bright0 pos)"
| reachable_step: "reachable s \<Longrightarrow> step e s = Inr s' \<Longrightarrow> reachable s'"

text \<open>The state after a run of events (the state before, should a handler raise).\<close>

definition after :: "event list \<Rightarrow> AutoPump \<Rightarrow> AutoPump" where
  "after es s = (case run_events es s of Inl x \<Rightarrow> s | Inr s' \<Rightarrow> s')"

subsection \<open>Telemetry\<close>

text \<open>The network is an argument. \<open>wifi k\<close> is the answer of the \<open>k\<close>-th call of
  \<^verbatim>\<open>WIFI.isconnected()\<close>; \<open>http j req\<close> is the outcome of the \<open>j\<close>-th call of
  \<^verbatim>\<open>urequests.post\<close> when it sends the point \<open>req\<close> (measurement and value): the call
  raises, or it returns a response with a body and the answer to whether \<^verbatim>\<open>r.json()\<close>
  can decode the body. The telemetry task carries the numbers of calls made so far.\<close>

datatype post_result = PostError | Response string bool

type_synonym point = "string \<times> int"

text \<open>\<^verbatim>\<open>connectToWifi\<close>: the inner \<^verbatim>\<open>for\<close> loop polls up to
  \<^verbatim>\<open>CONNECTION_DELAY_SEC\<close> times and returns from the function at the first poll that
  answers true; the outer \<^verbatim>\<open>while\<close> loop has no bound, so the function may not return
  (\<open>None\<close>).\<close>

fun wait_connected :: "nat \<Rightarrow> (nat \<Rightarrow> bool) \<Rightarrow> nat \<Rightarrow> bool \<times> nat" where
  "wait_connected 0 wifi i = (False, i)"
| "wait_connected (Suc k) wifi i =
     (if wifi i then (True, Suc i) else wait_connected k wifi (Suc i))"

partial_function (option) connectToWifi :: "(nat \<Rightarrow> bool) \<Rightarrow> nat \<Rightarrow> nat option" where
  "connectToWifi wifi i =
     (if \<not> wifi i then
        (let (returned, j) = wait_connected CONNECTION_DELAY_SEC wifi (Suc i)
         in if returned then Some j else connectToWifi wifi j)
      else Some (Suc i))"

text \<open>One pass through the body of the retry loop of \<^verbatim>\<open>sendDatapoint\<close>: how the pass
  leaves the body.\<close>

datatype loop_exit = Continue | Break | Return bool | Raise error

definition attempt :: "post_result \<Rightarrow> loop_exit" where
  "attempt r =
     (case r of
        PostError \<Rightarrow> Break
      | Response text json_ok \<Rightarrow>
          if length text < 1 then Return True
          else if json_ok then Return False
          else Raise ValueError)"

text \<open>\<^verbatim>\<open>for x in range(DATA_RETRY_COUNT)\<close>, and the \<^verbatim>\<open>return False\<close> after the loop. The
  result comes with the number of posts made so far.\<close>

fun retry_loop :: "nat \<Rightarrow> (nat \<Rightarrow> point \<Rightarrow> post_result) \<Rightarrow> point \<Rightarrow> nat \<Rightarrow> (error + bool) \<times> nat" where
  "retry_loop 0 http req j = (Inr False, j)"
| "retry_loop (Suc k) http req j =
     (case attempt (http j req) of
        Continue \<Rightarrow> retry_loop k http req (Suc j)
      | Break \<Rightarrow> (Inr False, Suc j)
      | Return b \<Rightarrow> (Inr b, Suc j)
      | Raise e \<Rightarrow> (Inl e, Suc j))"

definition sendDatapoint ::
  "(nat \<Rightarrow> bool) \<Rightarrow> (nat \<Rightarrow> point \<Rightarrow> post_result) \<Rightarrow> string \<Rightarrow> int \<Rightarrow> nat \<times> nat
     \<Rightarrow> ((error + bool) \<times> nat \<times> nat) option" where
  "sendDatapoint wifi http measurement v c =
     (case connectToWifi wifi (fst c) of
        None \<Rightarrow> None
      | Some i' \<Rightarrow>
          (let (r, j') = retry_loop DATA_RETRY_COUNT http (measurement, v) (snd c)
           in Some (r, (i', j'))))"

text \<open>One pass through the inner loop of \<^verbatim>\<open>_networkThread\<close>. \<open>None\<close>: the pass does
  not end; \<open>Inl e\<close>: an exception leaves the inner loop, is caught, and the outer loop
  starts again.\<close>

definition telemetry_pass ::
  "(nat \<Rightarrow> bool) \<Rightarrow> (nat \<Rightarrow> point \<Rightarrow> post_result) \<Rightarrow> int \<Rightarrow> int \<Rightarrow> int list
     \<Rightarrow> AutoPump \<times> nat \<times> nat \<Rightarrow> (error + AutoPump \<times> nat \<times> nat) option" where
  "telemetry_pass wifi http now r0 rs sc =
     (let s = fst sc; c = snd sc in
      if now - LastDataUpdate s > DATA_DELAY_SEC then
        (let pump_value = getLoad r0 rs in
         case sendDatapoint wifi http ''pump_load'' pump_value c of
           None \<Rightarrow> None
         | Some (r1, c1) \<Rightarrow>
             (case r1 of
                Inl e \<Rightarrow> Some (Inl e)
              | Inr b1 \<Rightarrow>
                  (case sendDatapoint wifi http ''pump_mode'' (mode_code (Mode s)) c1 of
                     None \<Rightarrow> None
                   | Some (r2, c2) \<Rightarrow>
                       (case r2 of
                          Inl e \<Rightarrow> Some (Inl e)
                        | Inr b2 \<Rightarrow> Some (Inr (s\<lparr>LastDataUpdate := now\<rparr>, c2))))))
      else Some (Inr (s, c)))"

subsection \<open>An invariant of the controller\<close>

text \<open>What every handler keeps: a running pump means a pumping mode; automatic pumping
  was started from the first entry of the menu; the indices into the menu and into the
  animation stay inside their lists; the minutes left are not negative.\<close>

definition ctl_inv :: "AutoPump \<Rightarrow> bool" where
  "ctl_inv s \<longleftrightarrow>
     (isOn (Pump s) \<longrightarrow> Mode s = MODE_AUTO_PUMPING \<or> Mode s = MODE_TIMER_PUMPING) \<and>
     (Mode s = MODE_AUTO_PUMPING \<longrightarrow>
        AutoMode s = AUTO_MODE_MENU \<and> AutoMenuSelected s = AUTO_MENU_RUN) \<and>
     0 \<le> AutoMenuSelected s \<and> AutoMenuSelected s < 3 \<and>
     0 \<le> AutoAnimationIdx s \<and> AutoAnimationIdx s < 8 \<and>
     0 \<le> RemainingPumpMinutes s"

section \<open>Properties\<close>

lemmas ev_defs = handleSwitch_def handleKnob_def knob_event_def handleButton_def run_tick_def
  auto_check_def write_animation_def checkLoadToStop_def boot_def
  EncoderKnob_value_def EncoderKnob_set_def Display_show_def Display_number_def
  Display_brightness_def saveConfig_def Pump_on_def Pump_off_def isOn_def getitem_def
  AutoMenu_def AutoAnimation_def getLoad_def int_div60_def Let_def after_def

lemma run_events_reachable:
  "reachable s \<Longrightarrow> run_events es s = Inr s' \<Longrightarrow> reachable s'"
proof (induction es arbitrary: s)
  case Nil
  then show ?case by simp
next
  case (Cons e es)
  then show ?case
    by (auto split: sum.splits intro: reachable_step)
qed

lemma swing_nonneg: "low \<le> high \<Longrightarrow> 0 \<le> swing rs low high"
  by (induction rs arbitrary: low high) auto

lemma getLoad_nonneg: "0 \<le> getLoad r0 rs"
  by (simp add: getLoad_def swing_nonneg)

lemma ctl_inv_boot: "ctl_inv (boot config knob0 bright0 pos)"
  by (simp add: ctl_inv_def ev_defs)

lemma ctl_inv_handleSwitch: "ctl_inv s \<Longrightarrow> ctl_inv (handleSwitch pos s)"
  by (simp add: ctl_inv_def ev_defs)

lemma ctl_inv_knob_event: "ctl_inv s \<Longrightarrow> knob_event d s = Inr s' \<Longrightarrow> ctl_inv s'"
  by (cases "Mode s") (auto simp add: ctl_inv_def ev_defs split: if_splits)

lemma ctl_inv_handleButton: "ctl_inv s \<Longrightarrow> handleButton t_on now s = Inr s' \<Longrightarrow> ctl_inv s'"
  by (cases "Mode s") (auto simp add: ctl_inv_def ev_defs split: if_splits)

lemma ctl_inv_run_tick: "ctl_inv s \<Longrightarrow> run_tick now r0 rs s = Inr s' \<Longrightarrow> ctl_inv s'"
  by (cases "Mode s") (auto simp add: ctl_inv_def ev_defs split: if_splits)

lemma ctl_inv_step: "ctl_inv s \<Longrightarrow> step e s = Inr s' \<Longrightarrow> ctl_inv s'"
  by (cases e)
    (auto intro: ctl_inv_handleSwitch ctl_inv_knob_event ctl_inv_handleButton ctl_inv_run_tick)

lemma reachable_ctl_inv: "reachable s \<Longrightarrow> ctl_inv s"
  by (induction rule: reachable.induct) (auto intro: ctl_inv_boot ctl_inv_step)


lemma write_animation_frame:
  "0 \<le> AutoAnimationIdx s \<Longrightarrow> AutoAnimationIdx s < 8 \<Longrightarrow>
   \<exists>s'. write_animation now s = Inr s' \<and> Mode s' = Mode s \<and> Pump s' = Pump s \<and>
        AutoMode s' = AutoMode s"
  by (simp add: write_animation_def getitem_def AutoAnimation_def Display_brightness_def Let_def)


lemma auto_check_skipped:
  "now - PumpStartTime s \<le> AUTO_READ_DELAY \<or> now mod 10 = 0 \<Longrightarrow> auto_check now r0 rs s = Inr s"
  by (auto simp add: auto_check_def)

subsection \<open>The actuator and the mode\<close>

text \<open>C1 (the actuator is on if and only if the mode is AutoPumping or TimerPumping, in
  every reachable state). The code breaks it: after boot in the automatic position, a
  first press of the button starts the pump in \<open>MODE_AUTO_PUMPING\<close>, and a second press
  switches the pump off and leaves the mode as it is. The state reached has the pump
  off in \<open>MODE_AUTO_PUMPING\<close>.\<close>

theorem actuator_off_in_auto_pumping_reachable:
  "\<exists>s. reachable s \<and>
       \<not> (isOn (Pump s) \<longleftrightarrow> Mode s \<in> {MODE_AUTO_PUMPING, MODE_TIMER_PUMPING})"
proof -
  let ?s = "after [Button 100 100, Button 160 160] (boot Map.empty 0 7 1)"
  have run: "run_events [Button 100 100, Button 160 160] (boot Map.empty 0 7 1) = Inr ?s"
    by (simp add: ev_defs)
  have "reachable ?s"
    using reachable_boot run by (rule run_events_reachable)
  moreover have "\<not> isOn (Pump ?s)" "Mode ?s = MODE_AUTO_PUMPING"
    by (simp_all add: ev_defs)
  ultimately show ?thesis by blast
qed

text \<open>C2 (in AutoPumping a press of the button switches the actuator off and moves to
  AutoStandby/Menu at once). The code switches the pump off and shows the first menu
  label, and does not assign \<open>Mode\<close>: after boot in the automatic position and one press
  (the pump runs in \<open>MODE_AUTO_PUMPING\<close>), the next press returns a state with the pump
  off whose mode is still \<open>MODE_AUTO_PUMPING\<close>.\<close>

theorem button_in_auto_pumping_keeps_mode:
  "Mode (after [Button 100 100] (boot Map.empty 0 7 1)) = MODE_AUTO_PUMPING \<and>
   isOn (Pump (after [Button 100 100] (boot Map.empty 0 7 1))) \<and>
   (\<exists>s'. handleButton 160 160 (after [Button 100 100] (boot Map.empty 0 7 1)) = Inr s' \<and>
      \<not> isOn (Pump s') \<and> Shown s' = ShowText ''AUTO'' \<and>
      Mode s' = MODE_AUTO_PUMPING \<and> Mode s' \<noteq> MODE_AUTO_STANDBY)"
  by (simp add: ev_defs)

subsection \<open>The countdown of the timer\<close>

text \<open>C3 as stated (every tick in TimerPumping sets RemainingMinutes to
  floor((S + 59 - e) / 60)) fails once the tick comes 60 seconds or more after the end
  of the run: with S = 60 and e = 120 the floor is -1, the code computes
  \<^verbatim>\<open>int(-1 / 60)\<close>, which is 0, and leaves RemainingMinutes at 0.\<close>

theorem timer_tick_floor_counterexample:
  "Mode (after [KnobTurn 1, Button 0 0] (boot Map.empty 0 7 0)) = MODE_TIMER_PUMPING \<and>
   SecondsToPump (after [KnobTurn 1, Button 0 0] (boot Map.empty 0 7 0)) = 60 \<and>
   PumpStartTime (after [KnobTurn 1, Button 0 0] (boot Map.empty 0 7 0)) = 0 \<and>
   (\<exists>s'. run_tick 120 0 [] (after [KnobTurn 1, Button 0 0] (boot Map.empty 0 7 0)) = Inr s' \<and>
      RemainingPumpMinutes s' = 0 \<and>
      RemainingPumpMinutes s' \<noteq> (60 + 59 - (120 - 0)) div 60) \<and>
   int_div60 (60 + 59 - (120 - 0)) \<noteq> (60 + 59 - (120 - 0)) div 60"
  by (simp add: ev_defs)

text \<open>C3, amended: in \<open>MODE_TIMER_PUMPING\<close> with S = \<open>SecondsToPump\<close> and
  e = \<open>now - PumpStartTime\<close>, the tick returns, shows RemainingMinutes, and leaves it
  equal to floor((S + 59 - e) / 60) whenever e \<le> S + 59; the value is never negative;
  the pump is off with \<open>MODE_TIMER_STANDBY\<close> and RemainingMinutes = 0 exactly when
  e \<ge> S; and while e < S the mode and the pump are unchanged and at least one minute
  is shown.\<close>

theorem timer_tick_remaining_minutes:
  assumes "Mode s = MODE_TIMER_PUMPING"
  shows "\<exists>s'. run_tick now r0 rs s = Inr s' \<and>
     (now - PumpStartTime s \<le> SecondsToPump s + 59 \<longrightarrow>
        RemainingPumpMinutes s' = (SecondsToPump s + 59 - (now - PumpStartTime s)) div 60) \<and>
     Shown s' = ShowNumber (RemainingPumpMinutes s') \<and>
     0 \<le> RemainingPumpMinutes s' \<and>
     ((\<not> isOn (Pump s') \<and> Mode s' = MODE_TIMER_STANDBY \<and> RemainingPumpMinutes s' = 0)
        \<longleftrightarrow> now - PumpStartTime s \<ge> SecondsToPump s) \<and>
     (now - PumpStartTime s < SecondsToPump s \<longrightarrow>
        Mode s' = MODE_TIMER_PUMPING \<and> Pump s' = Pump s \<and> 1 \<le> RemainingPumpMinutes s')"
  using assms by (auto simp add: ev_defs)

text \<open>The scenario of the spec: five minutes on the knob, a press of the button at
  time 0; the tick at 241 seconds shows one minute and the pump still runs.\<close>

theorem timer_tick_remaining_minutes_witness:
  "Mode (after [KnobTurn 5, Button 0 0] (boot Map.empty 0 7 0)) = MODE_TIMER_PUMPING \<and>
   SecondsToPump (after [KnobTurn 5, Button 0 0] (boot Map.empty 0 7 0)) = 300 \<and>
   (\<exists>s'. run_tick 241 0 [] (after [KnobTurn 5, Button 0 0] (boot Map.empty 0 7 0)) = Inr s' \<and>
      RemainingPumpMinutes s' = 1 \<and> Shown s' = ShowNumber 1 \<and>
      Mode s' = MODE_TIMER_PUMPING \<and> isOn (Pump s'))"
proof -
  let ?s = "after [KnobTurn 5, Button 0 0] (boot Map.empty 0 7 0)"
  have m: "Mode ?s = MODE_TIMER_PUMPING"
    by (simp add: ev_defs)
  have f: "SecondsToPump ?s = 300" "PumpStartTime ?s = 0" "isOn (Pump ?s)"
    by (simp_all add: ev_defs)
  from timer_tick_remaining_minutes [OF m, of 241 0 "[]"] obtain s'
    where "run_tick 241 0 [] ?s = Inr s'"
      and "RemainingPumpMinutes s' = (300 + 59 - 241) div 60"
      and "Shown s' = ShowNumber (RemainingPumpMinutes s')"
      and "Mode s' = MODE_TIMER_PUMPING" and "Pump s' = Pump ?s"
    using f by auto
  then show ?thesis using m f by simp
qed

subsection \<open>The mode switch\<close>




subsection \<open>Automatic completion\<close>



text \<open>C5 as stated (after the guard of 30 seconds the load check runs about once
  every 10 seconds, not on every tick) fails: the condition \<^verbatim>\<open>now % 10\<close> is true at
  every second that is not a multiple of 10. With the pump started at time 0, the tick
  at second 41 samples the load (a swing of 0 stops the pump, a swing of 2000 does
  not), and the tick at second 42 samples it again.\<close>

theorem load_check_consecutive_seconds_counterexample:
  "Mode (after [Button 0 0] (boot Map.empty 0 7 1)) = MODE_AUTO_PUMPING \<and>
   PumpStartTime (after [Button 0 0] (boot Map.empty 0 7 1)) = 0 \<and>
   Mode (after [Button 0 0, Tick 41 0 [0]] (boot Map.empty 0 7 1)) = MODE_AUTO_STANDBY \<and>
   Mode (after [Button 0 0, Tick 41 0 [2000]] (boot Map.empty 0 7 1)) = MODE_AUTO_PUMPING \<and>
   Mode (after [Button 0 0, Tick 41 0 [2000], Tick 42 0 [0]] (boot Map.empty 0 7 1)) = MODE_AUTO_STANDBY \<and>
   Mode (after [Button 0 0, Tick 41 0 [2000], Tick 42 0 [2000]] (boot Map.empty 0 7 1)) = MODE_AUTO_PUMPING"
  by (simp add: ev_defs)

text \<open>C5, amended: in \<open>MODE_AUTO_PUMPING\<close> a tick takes no load sample while
  \<open>now - PumpStartTime \<le> AUTO_READ_DELAY\<close> (30 seconds) and at seconds that are
  multiples of 10: its result does not depend on the ADC, and the mode and the pump are
  unchanged. At every other tick the sample is taken and \<^verbatim>\<open>checkLoadToStop\<close> decides:
  the mode becomes \<open>MODE_AUTO_STANDBY\<close> exactly when it answers true, and its
  exception is the exception of the tick.\<close>

theorem load_check_cadence:
  assumes "reachable s" and "Mode s = MODE_AUTO_PUMPING"
  shows "(now - PumpStartTime s \<le> AUTO_READ_DELAY \<or> now mod 10 = 0 \<longrightarrow>
            (\<exists>s'. run_tick now r0 rs s = Inr s' \<and> Mode s' = Mode s \<and> Pump s' = Pump s) \<and>
            (\<forall>r0' rs'. run_tick now r0' rs' s = run_tick now r0 rs s)) \<and>
         (now - PumpStartTime s > AUTO_READ_DELAY \<and> now mod 10 \<noteq> 0 \<longrightarrow>
            (case checkLoadToStop (getLoad r0 rs) s of
               Inl e \<Rightarrow> run_tick now r0 rs s = Inl e
             | Inr stop \<Rightarrow>
                 (\<exists>s'. run_tick now r0 rs s = Inr s' \<and> (Mode s' = MODE_AUTO_STANDBY) = stop)))"
proof -
  from assms(1) have inv: "ctl_inv s" by (rule reachable_ctl_inv)
  then have idx: "0 \<le> AutoAnimationIdx s" "AutoAnimationIdx s < 8"
    by (simp_all add: ctl_inv_def)
  from write_animation_frame [OF idx, of now] obtain s2 where
    w: "write_animation now s = Inr s2" "Mode s2 = Mode s" "Pump s2 = Pump s"
    by blast
  have skipped: "\<exists>s'. run_tick now r0 rs s = Inr s' \<and> Mode s' = Mode s \<and> Pump s' = Pump s"
      and same: "\<forall>r0' rs'. run_tick now r0' rs' s = run_tick now r0 rs s"
    if "now - PumpStartTime s \<le> AUTO_READ_DELAY \<or> now mod 10 = 0"
  proof -
    have a: "auto_check now r0' rs' s = Inr s" for r0' rs'
      using that by (rule auto_check_skipped)
    have r: "run_tick now r0' rs' s = (if now mod 2 \<noteq> 0 then Inr s2 else Inr s)" for r0' rs'
      using assms(2) a w by (simp add: run_tick_def)
    show "\<exists>s'. run_tick now r0 rs s = Inr s' \<and> Mode s' = Mode s \<and> Pump s' = Pump s"
      using r w by auto
    show "\<forall>r0' rs'. run_tick now r0' rs' s = run_tick now r0 rs s"
      using r by simp
  qed
  have due: "case checkLoadToStop (getLoad r0 rs) s of
               Inl e \<Rightarrow> run_tick now r0 rs s = Inl e
             | Inr stop \<Rightarrow>
                 (\<exists>s'. run_tick now r0 rs s = Inr s' \<and> (Mode s' = MODE_AUTO_STANDBY) = stop)"
    if g: "now - PumpStartTime s > AUTO_READ_DELAY" "now mod 10 \<noteq> 0"
  proof (cases "checkLoadToStop (getLoad r0 rs) s")
    case (Inl e)
    then show ?thesis
      using assms(2) g by (simp add: run_tick_def auto_check_def)
  next
    case (Inr stop)
    show ?thesis
    proof (cases stop)
      case True
      let ?s1 = "Display_show ''AUTO'' (s\<lparr>Pump := Pump_off (Pump s), Mode := MODE_AUTO_STANDBY\<rparr>)"
      have idx1: "0 \<le> AutoAnimationIdx ?s1" "AutoAnimationIdx ?s1 < 8"
        using idx by (simp_all add: Display_show_def)
      from write_animation_frame [OF idx1, of now] obtain s3 where
        w3: "write_animation now ?s1 = Inr s3" "Mode s3 = Mode ?s1"
        by blast
      have "auto_check now r0 rs s = Inr ?s1"
        using g Inr True by (simp add: auto_check_def getitem_def AutoMenu_def Let_def)
      then have "run_tick now r0 rs s = (if now mod 2 \<noteq> 0 then Inr s3 else Inr ?s1)"
        using assms(2) w3 by (simp add: run_tick_def)
      then show ?thesis
        using Inr True w3 by (auto simp add: Display_show_def)
    next
      case False
      have "auto_check now r0 rs s = Inr s"
        using g Inr False by (simp add: auto_check_def)
      then have "run_tick now r0 rs s = (if now mod 2 \<noteq> 0 then Inr s2 else Inr s)"
        using assms(2) w by (simp add: run_tick_def)
      then show ?thesis
        using Inr False w assms(2) by auto
    qed
  qed
  show ?thesis
  proof (intro conjI impI)
    assume a: "now - PumpStartTime s \<le> AUTO_READ_DELAY \<or> now mod 10 = 0"
    from skipped [OF a]
    show "\<exists>s'. run_tick now r0 rs s = Inr s' \<and> Mode s' = Mode s \<and> Pump s' = Pump s" .
    from same [OF a]
    show "\<forall>r0' rs'. run_tick now r0' rs' s = run_tick now r0 rs s" .
  next
    assume b: "now - PumpStartTime s > AUTO_READ_DELAY \<and> now mod 10 \<noteq> 0"
    then have g: "now - PumpStartTime s > AUTO_READ_DELAY" "now mod 10 \<noteq> 0"
      by simp_all
    from due [OF g]
    show "case checkLoadToStop (getLoad r0 rs) s of
               Inl e \<Rightarrow> run_tick now r0 rs s = Inl e
             | Inr stop \<Rightarrow>
                 (\<exists>s'. run_tick now r0 rs s = Inr s' \<and> (Mode s' = MODE_AUTO_STANDBY) = stop)" .
  qed
qed

text \<open>Pump started at time 0: the tick at second 30 takes no sample; the tick at
  second 41 does, and a swing of 0 stops the pump.\<close>

theorem load_check_cadence_witness:
  "reachable (after [Button 0 0] (boot Map.empty 0 7 1)) \<and>
   Mode (after [Button 0 0] (boot Map.empty 0 7 1)) = MODE_AUTO_PUMPING \<and>
   PumpStartTime (after [Button 0 0] (boot Map.empty 0 7 1)) = 0 \<and>
   (\<exists>s'. run_tick 30 0 [0] (after [Button 0 0] (boot Map.empty 0 7 1)) = Inr s' \<and>
      Mode s' = MODE_AUTO_PUMPING) \<and>
   checkLoadToStop (getLoad 0 [0]) (after [Button 0 0] (boot Map.empty 0 7 1)) = Inr True \<and>
   (\<exists>s'. run_tick 41 0 [0] (after [Button 0 0] (boot Map.empty 0 7 1)) = Inr s' \<and>
      Mode s' = MODE_AUTO_STANDBY)"
proof -
  let ?s = "after [Button 0 0] (boot Map.empty 0 7 1)"
  have run: "run_events [Button 0 0] (boot Map.empty 0 7 1) = Inr ?s"
    by (simp add: ev_defs)
  have r: "reachable ?s"
    using reachable_boot run by (rule run_events_reachable)
  have f: "Mode ?s = MODE_AUTO_PUMPING" "PumpStartTime ?s = 0"
    "checkLoadToStop (getLoad 0 [0]) ?s = Inr True"
    by (simp_all add: ev_defs)
  have a: "\<exists>s'. run_tick 30 0 [0] ?s = Inr s' \<and> Mode s' = MODE_AUTO_PUMPING"
    using load_check_cadence [OF r f(1), of 30 0 "[0]"] f by auto
  have b: "\<exists>s'. run_tick 41 0 [0] ?s = Inr s' \<and> Mode s' = MODE_AUTO_STANDBY"
    using load_check_cadence [OF r f(1), of 41 0 "[0]"] f by auto
  show ?thesis using r f a b by simp
qed

subsection \<open>The baseline of the load\<close>

text \<open>C6 (the baseline \<open>AutoWaterLoad\<close> is positive in every reachable state, so the
  division in \<^verbatim>\<open>checkLoadToStop\<close> is defined). The code breaks it: in the water
  calibration a window of equal ADC readings gives a swing of 0, which becomes the
  baseline; after the menu entry AUTO is started, the first tick that samples the load
  raises \<^verbatim>\<open>ZeroDivisionError\<close>.\<close>

theorem zero_baseline_reachable:
  "\<exists>s. reachable s \<and> Mode s = MODE_AUTO_PUMPING \<and> isOn (Pump s) \<and>
       AutoWaterLoad s = 0 \<and> \<not> 0 < AutoWaterLoad s \<and>
       run_tick 131 2048 [2048, 2048] s = Inl ZeroDivisionError"
proof -
  let ?es = "[KnobTurn 2, Button 1 1, Tick 2 2048 [2048, 2048], Button 3 3, KnobTurn 1,
              Button 100 100]"
  let ?s = "after ?es (boot Map.empty 0 7 1)"
  have run: "run_events ?es (boot Map.empty 0 7 1) = Inr ?s"
    by (simp add: ev_defs)
  have "reachable ?s"
    using reachable_boot run by (rule run_events_reachable)
  moreover have "Mode ?s = MODE_AUTO_PUMPING" "isOn (Pump ?s)" "AutoWaterLoad ?s = 0"
    "run_tick 131 2048 [2048, 2048] ?s = Inl ZeroDivisionError"
    by (simp_all add: ev_defs)
  ultimately show ?thesis by auto
qed

subsection \<open>The calibration of the threshold\<close>






subsection \<open>Telemetry\<close>

text \<open>\<^verbatim>\<open>connectToWifi\<close> returns as soon as a poll answers true: if the WiFi is up at
  some poll from the \<open>i\<close>-th on, the call returns.\<close>

lemma wait_connected_found:
  "i \<le> j \<Longrightarrow> j < i + k \<Longrightarrow> wifi j \<Longrightarrow> (\<forall>m. i \<le> m \<and> m < j \<longrightarrow> \<not> wifi m) \<Longrightarrow>
   wait_connected k wifi i = (True, Suc j)"
proof (induction k arbitrary: i)
  case 0
  then show ?case by simp
next
  case (Suc k)
  show ?case
  proof (cases "wifi i")
    case True
    with Suc.prems have "j = i"
      by (metis le_neq_implies_less order_refl)
    with True show ?thesis by simp
  next
    case False
    with Suc.prems have "Suc i \<le> j"
      by (metis Suc_leI le_neq_implies_less)
    moreover have "j < Suc i + k" using Suc.prems by simp
    moreover have "\<forall>m. Suc i \<le> m \<and> m < j \<longrightarrow> \<not> wifi m" using Suc.prems by simp
    ultimately have "wait_connected k wifi (Suc i) = (True, Suc j)"
      using Suc.prems(3) by (intro Suc.IH)
    with False show ?thesis by simp
  qed
qed

lemma wait_connected_none:
  "(\<forall>m. i \<le> m \<and> m < i + k \<longrightarrow> \<not> wifi m) \<Longrightarrow> wait_connected k wifi i = (False, i + k)"
  by (induction k arbitrary: i) simp_all

lemma connectToWifi_first:
  "i \<le> j \<Longrightarrow> wifi j \<Longrightarrow> (\<forall>m. i \<le> m \<and> m < j \<longrightarrow> \<not> wifi m) \<Longrightarrow>
   connectToWifi wifi i = Some (Suc j)"
proof (induction "j - i" arbitrary: i rule: less_induct)
  case less
  show ?case
  proof (cases "wifi i")
    case True
    with less.prems have "j = i"
      by (metis le_neq_implies_less order_refl)
    with True show ?thesis
      by (subst connectToWifi.simps) simp
  next
    case False
    with less.prems have lt: "i < j"
      by (metis le_neq_implies_less)
    show ?thesis
    proof (cases "j < Suc i + CONNECTION_DELAY_SEC")
      case True
      have "wait_connected CONNECTION_DELAY_SEC wifi (Suc i) = (True, Suc j)"
        using lt True less.prems by (intro wait_connected_found) auto
      with False show ?thesis
        by (subst connectToWifi.simps) simp
    next
      case far: False
      have none: "wait_connected CONNECTION_DELAY_SEC wifi (Suc i) = (False, Suc i + CONNECTION_DELAY_SEC)"
        using far less.prems by (intro wait_connected_none) auto
      have "connectToWifi wifi (Suc i + CONNECTION_DELAY_SEC) = Some (Suc j)"
        using far less.prems by (intro less.hyps) auto
      with False none show ?thesis
        by (subst connectToWifi.simps) simp
    qed
  qed
qed

lemma connectToWifi_returns:
  assumes "\<exists>k\<ge>i. wifi k"
  shows "\<exists>i'. connectToWifi wifi i = Some i' \<and> i < i'"
proof -
  define j where "j = (LEAST k. i \<le> k \<and> wifi k)"
  from assms obtain k where k: "i \<le> k \<and> wifi k" by blast
  then have j: "i \<le> j \<and> wifi j"
    unfolding j_def by (rule LeastI)
  have "\<not> (i \<le> m \<and> wifi m)" if "m < j" for m
    using that unfolding j_def by (rule not_less_Least)
  then have "\<forall>m. i \<le> m \<and> m < j \<longrightarrow> \<not> wifi m" by blast
  with j have "connectToWifi wifi i = Some (Suc j)"
    by (intro connectToWifi_first) auto
  with j show ?thesis by auto
qed

lemma retry_loop_once:
  "retry_loop (Suc k) http req j =
     (case http j req of
        PostError \<Rightarrow> (Inr False, Suc j)
      | Response text json_ok \<Rightarrow>
          if text = [] then (Inr True, Suc j)
          else if json_ok then (Inr False, Suc j) else (Inl ValueError, Suc j))"
  by (simp add: attempt_def split: post_result.splits)

lemma sendDatapoint_returns:
  assumes "\<exists>k\<ge>fst c. wifi k"
  shows "\<exists>i'. fst c < i' \<and> sendDatapoint wifi http m v c =
      Some (fst (retry_loop DATA_RETRY_COUNT http (m, v) (snd c)),
            (i', snd (retry_loop DATA_RETRY_COUNT http (m, v) (snd c))))"
proof -
  from connectToWifi_returns [OF assms] obtain i' where
    "connectToWifi wifi (fst c) = Some i'" "fst c < i'" by blast
  then show ?thesis
    by (auto simp add: sendDatapoint_def split: prod.splits)
qed


lemma connectToWifi_connected: "wifi i \<Longrightarrow> connectToWifi wifi i = Some (Suc i)"
  by (subst connectToWifi.simps) simp

text \<open>C7: provided the WiFi comes back after every loss, \<^verbatim>\<open>sendDatapoint\<close> returns
  after at least one and at most \<open>DATA_RETRY_COUNT\<close> (3) posts; a post that raises
  ends the point with the result False after that single post; a response with a
  body that is not empty ends the point after that single post too, never with the
  result True. A transport error at the first point does not end the pass of the
  telemetry loop: the second point is sent, the pass ends as the second point ends,
  and when the second point meets a transport error as well the pass still ends
  normally.\<close>

theorem telemetry_point_attempts:
  assumes up: "\<forall>i. \<exists>k\<ge>i. wifi k"
  shows
    "(\<exists>r c'. sendDatapoint wifi http m v c = Some (r, c') \<and>
        snd c < snd c' \<and> snd c' \<le> snd c + DATA_RETRY_COUNT \<and>
        (http (snd c) (m, v) = PostError \<longrightarrow> r = Inr False \<and> snd c' = Suc (snd c)) \<and>
        (\<forall>text json_ok. http (snd c) (m, v) = Response text json_ok \<and> text \<noteq> [] \<longrightarrow>
           r \<noteq> Inr True \<and> snd c' = Suc (snd c))) \<and>
     (now - LastDataUpdate s > DATA_DELAY_SEC \<and>
      http (snd c) (''pump_load'', getLoad r0 rs) = PostError \<longrightarrow>
        (\<exists>c1 r2 c2.
           sendDatapoint wifi http ''pump_load'' (getLoad r0 rs) c = Some (Inr False, c1) \<and>
           snd c1 = Suc (snd c) \<and>
           sendDatapoint wifi http ''pump_mode'' (mode_code (Mode s)) c1 = Some (r2, c2) \<and>
           telemetry_pass wifi http now r0 rs (s, c) =
             Some (case r2 of Inl e \<Rightarrow> Inl e
                   | Inr b \<Rightarrow> Inr (s\<lparr>LastDataUpdate := now\<rparr>, c2)) \<and>
           (http (Suc (snd c)) (''pump_mode'', mode_code (Mode s)) = PostError \<longrightarrow>
              r2 = Inr False \<and> snd c2 = Suc (Suc (snd c)))))"
proof (intro conjI impI)
  from up have "\<exists>k\<ge>fst c. wifi k" by simp
  from sendDatapoint_returns [OF this, of http m v] obtain i' where
    sd: "sendDatapoint wifi http m v c =
      Some (fst (retry_loop DATA_RETRY_COUNT http (m, v) (snd c)),
            (i', snd (retry_loop DATA_RETRY_COUNT http (m, v) (snd c))))"
    by blast
  have three: "DATA_RETRY_COUNT = Suc 2" by simp
  show "\<exists>r c'. sendDatapoint wifi http m v c = Some (r, c') \<and>
        snd c < snd c' \<and> snd c' \<le> snd c + DATA_RETRY_COUNT \<and>
        (http (snd c) (m, v) = PostError \<longrightarrow> r = Inr False \<and> snd c' = Suc (snd c)) \<and>
        (\<forall>text json_ok. http (snd c) (m, v) = Response text json_ok \<and> text \<noteq> [] \<longrightarrow>
           r \<noteq> Inr True \<and> snd c' = Suc (snd c))"
    unfolding sd three retry_loop_once
    by (cases "http (snd c) (m, v)") auto
next
  assume a: "now - LastDataUpdate s > DATA_DELAY_SEC \<and>
      http (snd c) (''pump_load'', getLoad r0 rs) = PostError"
  have three: "DATA_RETRY_COUNT = Suc 2" by simp
  from up have "\<exists>k\<ge>fst c. wifi k" by simp
  from sendDatapoint_returns [OF this, of http "''pump_load''" "getLoad r0 rs"] obtain i1 where
    "sendDatapoint wifi http ''pump_load'' (getLoad r0 rs) c =
      Some (fst (retry_loop DATA_RETRY_COUNT http (''pump_load'', getLoad r0 rs) (snd c)),
            (i1, snd (retry_loop DATA_RETRY_COUNT http (''pump_load'', getLoad r0 rs) (snd c))))"
    by blast
  then have s1: "sendDatapoint wifi http ''pump_load'' (getLoad r0 rs) c =
      Some (Inr False, (i1, Suc (snd c)))"
    using a unfolding three retry_loop_once by simp
  let ?c1 = "(i1, Suc (snd c))"
  from up have "\<exists>k\<ge>fst ?c1. wifi k" by simp
  from sendDatapoint_returns [OF this, of http "''pump_mode''" "mode_code (Mode s)"] obtain i2 where
    s2: "sendDatapoint wifi http ''pump_mode'' (mode_code (Mode s)) ?c1 =
      Some (fst (retry_loop DATA_RETRY_COUNT http (''pump_mode'', mode_code (Mode s)) (snd ?c1)),
            (i2, snd (retry_loop DATA_RETRY_COUNT http (''pump_mode'', mode_code (Mode s)) (snd ?c1))))"
    by blast
  let ?r2 = "fst (retry_loop DATA_RETRY_COUNT http (''pump_mode'', mode_code (Mode s)) (snd ?c1))"
  let ?c2 = "(i2, snd (retry_loop DATA_RETRY_COUNT http (''pump_mode'', mode_code (Mode s)) (snd ?c1)))"
  have pass: "telemetry_pass wifi http now r0 rs (s, c) =
      Some (case ?r2 of Inl e \<Rightarrow> Inl e | Inr b \<Rightarrow> Inr (s\<lparr>LastDataUpdate := now\<rparr>, ?c2))"
    using a s1 s2 by (simp add: telemetry_pass_def Let_def split: sum.splits)
  have last: "http (Suc (snd c)) (''pump_mode'', mode_code (Mode s)) = PostError \<longrightarrow>
      ?r2 = Inr False \<and> snd ?c2 = Suc (Suc (snd c))"
    unfolding three retry_loop_once by simp
  show "\<exists>c1 r2 c2.
           sendDatapoint wifi http ''pump_load'' (getLoad r0 rs) c = Some (Inr False, c1) \<and>
           snd c1 = Suc (snd c) \<and>
           sendDatapoint wifi http ''pump_mode'' (mode_code (Mode s)) c1 = Some (r2, c2) \<and>
           telemetry_pass wifi http now r0 rs (s, c) =
             Some (case r2 of Inl e \<Rightarrow> Inl e
                   | Inr b \<Rightarrow> Inr (s\<lparr>LastDataUpdate := now\<rparr>, c2)) \<and>
           (http (Suc (snd c)) (''pump_mode'', mode_code (Mode s)) = PostError \<longrightarrow>
              r2 = Inr False \<and> snd c2 = Suc (Suc (snd c)))"
    using s1 s2 pass last by (intro exI [of _ ?c1] exI [of _ ?r2] exI [of _ ?c2]) simp
qed

text \<open>WiFi up, every post raises: both points are dropped after one post each, and
  the pass ends with \<open>LastDataUpdate\<close> set.\<close>

theorem telemetry_point_attempts_witness:
  "(\<forall>i. \<exists>k\<ge>i. (\<lambda>k::nat. True) k) \<and>
   (16::int) - LastDataUpdate (boot Map.empty 0 7 1) > DATA_DELAY_SEC \<and>
   sendDatapoint (\<lambda>k. True) (\<lambda>j req. PostError) ''pump_load'' 0 (0, 0) = Some (Inr False, (1, 1)) \<and>
   telemetry_pass (\<lambda>k. True) (\<lambda>j req. PostError) 16 0 [0] (boot Map.empty 0 7 1, (0, 0)) =
     Some (Inr ((boot Map.empty 0 7 1)\<lparr>LastDataUpdate := 16\<rparr>, (2, 2)))"
proof -
  let ?wifi = "\<lambda>k::nat. True"
  let ?http = "\<lambda>(j::nat) (req::point). PostError"
  let ?s = "boot Map.empty 0 7 1"
  have up: "\<forall>i. \<exists>k\<ge>i. ?wifi k" by blast
  have due: "(16::int) - LastDataUpdate ?s > DATA_DELAY_SEC"
    by (simp add: ev_defs)
  have load: "getLoad 0 [0] = 0" by (simp add: getLoad_def)
  have s1: "sendDatapoint ?wifi ?http m v (i, j) = Some (Inr False, (Suc i, Suc j))" for m v i j
    by (simp add: sendDatapoint_def connectToWifi_connected attempt_def numeral_3_eq_3)
  from telemetry_point_attempts [OF up, of ?http "''pump_load''" 0 "(0, 0)" 16 ?s 0 "[0]"] due load
  obtain c1 r2 c2 where
    a: "sendDatapoint ?wifi ?http ''pump_load'' 0 (0, 0) = Some (Inr False, c1)"
      "sendDatapoint ?wifi ?http ''pump_mode'' (mode_code (Mode ?s)) c1 = Some (r2, c2)"
      "telemetry_pass ?wifi ?http 16 0 [0] (?s, (0, 0)) =
         Some (case r2 of Inl e \<Rightarrow> Inl e | Inr b \<Rightarrow> Inr (?s\<lparr>LastDataUpdate := 16\<rparr>, c2))"
    by auto
  from a(1) have c1: "c1 = (1, 1)" by (simp add: s1)
  from a(2) have "r2 = Inr False" "c2 = (2, 2)" unfolding c1 by (auto simp add: s1)
  with a(3) have "telemetry_pass ?wifi ?http 16 0 [0] (?s, (0, 0)) =
      Some (Inr (?s\<lparr>LastDataUpdate := 16\<rparr>, (2, 2)))"
    by simp
  then show ?thesis using up due a(1) c1 by simp
qed

text \<open>C8 as stated (the telemetry task never mutates a field of the controller state,
  \<open>LastDataUpdate\<close> included) fails: a pass that publishes assigns
  \<^verbatim>\<open>self.LastDataUpdate = now\<close>.\<close>

theorem telemetry_writes_last_update_counterexample:
  "LastDataUpdate (boot Map.empty 0 7 1) = 0 \<and>
   (\<exists>s' c'. telemetry_pass (\<lambda>k. True) (\<lambda>j req. Response [] True) 16 0 [0]
              (boot Map.empty 0 7 1, (0, 0)) = Some (Inr (s', c')) \<and>
            LastDataUpdate s' = 16 \<and> s' \<noteq> boot Map.empty 0 7 1)"
proof -
  let ?s = "boot Map.empty 0 7 1"
  have l: "LastDataUpdate ?s = 0" by (simp add: ev_defs)
  have s1: "sendDatapoint (\<lambda>k. True) (\<lambda>j req. Response [] True) m v (i, j) =
      Some (Inr True, (Suc i, Suc j))" for m v i j
    by (simp add: sendDatapoint_def connectToWifi_connected attempt_def numeral_3_eq_3)
  have "telemetry_pass (\<lambda>k. True) (\<lambda>j req. Response [] True) 16 0 [0] (?s, (0, 0)) =
      Some (Inr (?s\<lparr>LastDataUpdate := 16\<rparr>, (2, 2)))"
    using l by (simp add: telemetry_pass_def s1 Let_def)
  moreover have "?s\<lparr>LastDataUpdate := 16\<rparr> \<noteq> ?s"
  proof
    assume "?s\<lparr>LastDataUpdate := 16\<rparr> = ?s"
    then have "LastDataUpdate (?s\<lparr>LastDataUpdate := 16\<rparr>) = LastDataUpdate ?s" by simp
    with l show False by simp
  qed
  ultimately show ?thesis using l by simp
qed

text \<open>C8, amended: a pass of the telemetry loop that ends normally changes no field
  of the controller state but \<open>LastDataUpdate\<close>, which it sets to \<open>now\<close> when it has
  published (else the state is unchanged); and what the pass does depends on the
  controller state only through \<open>Mode\<close> and \<open>LastDataUpdate\<close>.\<close>

theorem telemetry_pass_frame:
  "(\<forall>s' c'. telemetry_pass wifi http now r0 rs (s, c) = Some (Inr (s', c')) \<longrightarrow>
      s' = s\<lparr>LastDataUpdate := LastDataUpdate s'\<rparr> \<and>
      (LastDataUpdate s' = now \<or> s' = s)) \<and>
   (\<forall>s2. Mode s2 = Mode s \<and> LastDataUpdate s2 = LastDataUpdate s \<longrightarrow>
      map_option (map_sum id snd) (telemetry_pass wifi http now r0 rs (s2, c)) =
      map_option (map_sum id snd) (telemetry_pass wifi http now r0 rs (s, c)))"
  by (auto simp add: telemetry_pass_def Let_def split: option.splits sum.splits if_splits)

text \<open>WiFi up, every post accepted, 16 seconds after boot: only \<open>LastDataUpdate\<close>
  changes.\<close>

theorem telemetry_pass_frame_witness:
  "telemetry_pass (\<lambda>k. True) (\<lambda>j req. Response [] True) 16 0 [0] (boot Map.empty 0 7 1, (0, 0)) =
     Some (Inr ((boot Map.empty 0 7 1)\<lparr>LastDataUpdate := 16\<rparr>, (2, 2))) \<and>
   Mode ((boot Map.empty 0 7 1)\<lparr>LastDataUpdate := 16\<rparr>) = Mode (boot Map.empty 0 7 1) \<and>
   Pump ((boot Map.empty 0 7 1)\<lparr>LastDataUpdate := 16\<rparr>) = Pump (boot Map.empty 0 7 1)"
proof -
  let ?s = "boot Map.empty 0 7 1"
  have l: "LastDataUpdate ?s = 0" by (simp add: ev_defs)
  have s1: "sendDatapoint (\<lambda>k. True) (\<lambda>j req. Response [] True) m v (i, j) =
      Some (Inr True, (Suc i, Suc j))" for m v i j
    by (simp add: sendDatapoint_def connectToWifi_connected attempt_def numeral_3_eq_3)
  have p: "telemetry_pass (\<lambda>k. True) (\<lambda>j req. Response [] True) 16 0 [0] (?s, (0, 0)) =
      Some (Inr (?s\<lparr>LastDataUpdate := 16\<rparr>, (2, 2)))"
    using l by (simp add: telemetry_pass_def s1 Let_def)
  from telemetry_pass_frame [of "\<lambda>k. True" "\<lambda>j req. Response [] True" 16 0 "[0]" ?s "(0, 0)"] p
  have "?s\<lparr>LastDataUpdate := 16\<rparr> = ?s\<lparr>LastDataUpdate := LastDataUpdate (?s\<lparr>LastDataUpdate := 16\<rparr>)\<rparr>"
    by blast
  then show ?thesis using p by simp
qed

subsection \<open>Further properties of the code\<close>

text \<open>The half of the relation between the actuator and the mode that the code
  keeps: in every reachable state a running pump means a pumping mode.\<close>

theorem pump_on_implies_pumping_mode:
  assumes "reachable s" and "isOn (Pump s)"
  shows "Mode s = MODE_AUTO_PUMPING \<or> Mode s = MODE_TIMER_PUMPING"
  using reachable_ctl_inv [OF assms(1)] assms(2) by (simp add: ctl_inv_def)

text \<open>After boot in the automatic position and one press of the button.\<close>

theorem pump_on_implies_pumping_mode_witness:
  "reachable (after [Button 100 100] (boot Map.empty 0 7 1)) \<and>
   isOn (Pump (after [Button 100 100] (boot Map.empty 0 7 1))) \<and>
   Mode (after [Button 100 100] (boot Map.empty 0 7 1)) = MODE_AUTO_PUMPING"
proof -
  let ?s = "after [Button 100 100] (boot Map.empty 0 7 1)"
  have run: "run_events [Button 100 100] (boot Map.empty 0 7 1) = Inr ?s"
    by (simp add: ev_defs)
  have r: "reachable ?s"
    using reachable_boot run by (rule run_events_reachable)
  have f: "isOn (Pump ?s)" "Mode ?s \<noteq> MODE_TIMER_PUMPING"
    by (simp_all add: ev_defs)
  from pump_on_implies_pumping_mode [OF r f(1)] f(2)
  have "Mode ?s = MODE_AUTO_PUMPING" by simp
  then show ?thesis using r f by simp
qed

text \<open>Every path through the body of the retry loop leaves the loop: once the WiFi
  is connected, \<^verbatim>\<open>sendDatapoint\<close> makes exactly one post, whatever its outcome.\<close>

theorem sendDatapoint_single_post:
  assumes "connectToWifi wifi (fst c) = Some i'"
  shows "\<exists>r. sendDatapoint wifi http m v c = Some (r, (i', Suc (snd c)))"
  using assms
  by (simp add: sendDatapoint_def attempt_def numeral_3_eq_3
        split: post_result.splits prod.splits)

text \<open>A response with a body that is not empty: one post, the result False.\<close>

theorem sendDatapoint_single_post_witness:
  "connectToWifi (\<lambda>k. True) (fst (0::nat, 0::nat)) = Some 1 \<and>
   sendDatapoint (\<lambda>k. True) (\<lambda>j req. Response ''{}'' True) ''pump_load'' 7 (0, 0)
     = Some (Inr False, (1, 1))"
proof -
  have w: "connectToWifi (\<lambda>k. True) (fst (0::nat, 0::nat)) = Some 1"
    by (simp add: connectToWifi_connected)
  from sendDatapoint_single_post [OF w, of "\<lambda>j req. Response ''{}'' True" "''pump_load''" 7]
  obtain r where r: "sendDatapoint (\<lambda>k. True) (\<lambda>j req. Response ''{}'' True) ''pump_load'' 7 (0, 0)
     = Some (r, (1, Suc (snd (0::nat, 0::nat))))"
    by blast
  have "sendDatapoint (\<lambda>k. True) (\<lambda>j req. Response ''{}'' True) ''pump_load'' 7 (0, 0)
     = Some (Inr False, (1, 1))"
    by (simp add: sendDatapoint_def connectToWifi_connected attempt_def numeral_3_eq_3)
  then show ?thesis using w r by simp
qed

text \<open>From a reachable state no handler raises \<^verbatim>\<open>IndexError\<close> (the indices into the
  menu and the animation stay in range), so the only exception of the controller is
  the division by a zero baseline; and the minutes left are never negative.\<close>

theorem reachable_no_index_error:
  assumes "reachable s"
  shows "step e s \<noteq> Inl IndexError \<and> step e s \<noteq> Inl ValueError \<and>
         0 \<le> RemainingPumpMinutes s"
proof -
  from assms have inv: "ctl_inv s" by (rule reachable_ctl_inv)
  have "step e s \<noteq> Inl IndexError \<and> step e s \<noteq> Inl ValueError"
  proof (cases e)
    case (Switch pos)
    then show ?thesis by simp
  next
    case (KnobTurn d)
    with inv show ?thesis
      by (cases "Mode s") (auto simp add: ctl_inv_def ev_defs split: if_splits)
  next
    case (Button t_on now)
    with inv show ?thesis
      by (cases "Mode s") (auto simp add: ctl_inv_def ev_defs split: if_splits)
  next
    case (Tick now r0 rs)
    with inv show ?thesis
      by (cases "Mode s") (auto simp add: ctl_inv_def ev_defs split: if_splits)
  qed
  with inv show ?thesis by (simp add: ctl_inv_def)
qed

text \<open>The tick 31 seconds after the start of automatic pumping.\<close>

theorem reachable_no_index_error_witness:
  "reachable (after [Button 100 100] (boot Map.empty 0 7 1)) \<and>
   step (Tick 131 0 [0]) (after [Button 100 100] (boot Map.empty 0 7 1)) \<noteq> Inl IndexError \<and>
   0 \<le> RemainingPumpMinutes (after [Button 100 100] (boot Map.empty 0 7 1))"
proof -
  let ?s = "after [Button 100 100] (boot Map.empty 0 7 1)"
  have run: "run_events [Button 100 100] (boot Map.empty 0 7 1) = Inr ?s"
    by (simp add: ev_defs)
  have r: "reachable ?s"
    using reachable_boot run by (rule run_events_reachable)
  from reachable_no_index_error [OF r, of "Tick 131 0 [0]"] r show ?thesis by simp
qed

end
